theory Spec2Isabelle
  imports Complex_Main "HOL-Library.Sublist"
begin

section \<open>Strings\<close>

text \<open>
  Python's \<^verbatim>\<open>needle in content\<close> on strings: \<open>needle\<close> occurs in \<open>content\<close> as a
  contiguous substring. Every needle of the program is ASCII, so searching the bytes of the
  decoded text finds what searching its code points finds.
\<close>

fun str_in :: "string \<Rightarrow> string \<Rightarrow> bool" where
  "str_in needle [] = (needle = [])"
| "str_in needle (c # cs) = (prefix needle (c # cs) \<or> str_in needle cs)"

section \<open>The Analyzer: \<^verbatim>\<open>analyze_file\<close>\<close>

text \<open>
  \<^verbatim>\<open>if cond: features.append(label)\<close>, the one statement form of the body of
  \<^verbatim>\<open>analyze_file\<close>.
\<close>

definition append_if :: "bool \<Rightarrow> string \<Rightarrow> string list \<Rightarrow> string list" where
  "append_if cond label features = (if cond then features @ [label] else features)"

text \<open>
  The body of \<^verbatim>\<open>analyze_file\<close>, statement by statement, in the order of the source. The
  parameter \<open>file_name\<close> is kept as the source has it.
\<close>

definition analyze_file :: "string \<Rightarrow> string \<Rightarrow> string list" where
  "analyze_file content file_name =
    (let features = [];
         features = append_if (str_in ''import ('' content) ''imports'' features;
         features = append_if (str_in ''package main'' content) ''main package'' features;
         features = append_if (str_in ''func '' content) ''functions'' features;
         features = append_if (str_in ''struct {'' content \<or> str_in ''type '' content)
                      ''types'' features;
         features = append_if (str_in ''interface {'' content) ''interface'' features;
         features = append_if (str_in ''goroutine'' content \<or> str_in ''go func'' content
                        \<or> str_in ''go '' content) ''goroutines'' features;
         features = append_if (str_in ''chan '' content \<or> str_in ''channel'' content)
                      ''channels'' features;
         features = append_if (str_in ''defer '' content) ''defer'' features;
         features = append_if (str_in [CHR 0x22, CHR ''f'', CHR ''m'', CHR ''t'', CHR 0x22] content)
                      ''fmt'' features;
         features = append_if (str_in ([CHR 0x22] @ ''net/http'' @ [CHR 0x22]) content)
                      ''http'' features;
         features = append_if (str_in ([CHR 0x22] @ ''encoding/json'' @ [CHR 0x22]) content)
                      ''json'' features;
         features = append_if (str_in ([CHR 0x22] @ ''io'' @ [CHR 0x22]) content
                        \<or> str_in ([CHR 0x22] @ ''io/'') content) ''io'' features;
         features = append_if (str_in ([CHR 0x22] @ ''os'' @ [CHR 0x22]) content)
                      ''os'' features;
         features = append_if (str_in ([CHR 0x22] @ ''sync'' @ [CHR 0x22]) content)
                      ''sync'' features;
         features = append_if (str_in ''make(map'' content \<or> str_in ''map['' content)
                      ''map'' features;
         features = append_if (str_in ''make([]'' content \<or> str_in ''[]'' content)
                      ''slice'' features;
         features = append_if (str_in ''append('' content) ''append'' features;
         features = append_if (str_in ''if err != nil'' content) ''error handling'' features
     in features)"

text \<open>The labels of the checks of \<^verbatim>\<open>analyze_file\<close>, in the order the checks are made.\<close>

definition checklist :: "string list" where
  "checklist =
    [''imports'', ''main package'', ''functions'', ''types'', ''interface'', ''goroutines'',
     ''channels'', ''defer'', ''fmt'', ''http'', ''json'', ''io'', ''os'', ''sync'', ''map'',
     ''slice'', ''append'', ''error handling'']"

section \<open>Paths and text, as the library functions of the source compute them\<close>

text \<open>\<^verbatim>\<open>os.path.basename\<close> (POSIX): what follows the last slash.\<close>

definition basename :: "string \<Rightarrow> string" where
  "basename p = rev (takeWhile (\<lambda>c. c \<noteq> CHR ''/'') (rev p))"

text \<open>
  \<^verbatim>\<open>os.path.dirname\<close> (POSIX): the path up to its last slash, with the trailing slashes
  removed unless it consists of slashes only.
\<close>

definition dirname :: "string \<Rightarrow> string" where
  "dirname p =
    (let head = rev (dropWhile (\<lambda>c. c \<noteq> CHR ''/'') (rev p))
     in if head \<noteq> [] \<and> list_ex (\<lambda>c. c \<noteq> CHR ''/'') head
        then rev (dropWhile (\<lambda>c. c = CHR ''/'') (rev head))
        else head)"

text \<open>\<^verbatim>\<open>os.path.join\<close> (POSIX) of two components.\<close>

definition path_join :: "string \<Rightarrow> string \<Rightarrow> string" where
  "path_join a b =
    (if prefix ''/'' b then b
     else if a = [] \<or> suffix ''/'' a then a @ b
     else a @ ''/'' @ b)"

text \<open>
  \<^verbatim>\<open>os.path.splitext(p)[0]\<close>: the path without the extension of its last component. The
  extension starts at the last dot of that component, unless only dots precede it.
\<close>

definition splitext_root :: "string \<Rightarrow> string" where
  "splitext_root p =
    (let tail = basename p;
         head = take (length p - length tail) p
     in if CHR ''.'' \<in> set tail then
          (let stem = rev (tl (dropWhile (\<lambda>c. c \<noteq> CHR ''.'') (rev tail)))
           in if list_ex (\<lambda>c. c \<noteq> CHR ''.'') stem then head @ stem else p)
        else p)"

text \<open>\<^verbatim>\<open>content.split(sep)\<close> for a separator of one character.\<close>

fun split_chr :: "char \<Rightarrow> string \<Rightarrow> string list" where
  "split_chr sep [] = [[]]"
| "split_chr sep (c # cs) =
    (if c = sep then [] # split_chr sep cs
     else (case split_chr sep cs of
             [] \<Rightarrow> [[c]]
           | w # ws \<Rightarrow> (c # w) # ws))"

text \<open>\<^verbatim>\<open>sep.join(xs)\<close>.\<close>

fun join_str :: "string \<Rightarrow> string list \<Rightarrow> string" where
  "join_str sep [] = []"
| "join_str sep [x] = x"
| "join_str sep (x # y # ys) = x @ sep @ join_str sep (y # ys)"

text \<open>The decimal numeral of a natural number, as an f-string formats an \<^verbatim>\<open>int\<close>.\<close>

definition digit_chr :: "nat \<Rightarrow> char" where
  "digit_chr d = ''0123456789'' ! d"

function str_of_nat :: "nat \<Rightarrow> string" where
  "str_of_nat n = (if n < 10 then [digit_chr n] else str_of_nat (n div 10) @ [digit_chr (n mod 10)])"
  by pat_completeness auto
termination
  by (relation "measure id") auto

text \<open>The newline character, \<^verbatim>\<open>chr(10)\<close>.\<close>

definition newline :: char where
  "newline = CHR 0x0A"

section \<open>The Committer: \<^verbatim>\<open>commit_changes\<close>\<close>

text \<open>
  The errors that a step of the program can raise: instances of Python's class
  \<^verbatim>\<open>Exception\<close>. The operator's interrupt is not one of them: \<^verbatim>\<open>KeyboardInterrupt\<close>
  derives from \<^verbatim>\<open>BaseException\<close>, \<^verbatim>\<open>except Exception\<close> lets it pass, and \<^verbatim>\<open>main\<close>
  handles it (the \<open>Interrupt\<close> of the watch loop below). \<open>OSError\<close> stands for the class
  and its subclasses, \<open>Other_exception\<close> for an exception of any other class.
\<close>

datatype exn =
    TimeoutExpired
  | OSError
  | UnicodeDecodeError
  | UnicodeEncodeError
  | Other_exception string

text \<open>What \<^verbatim>\<open>except OSError\<close> catches.\<close>

fun is_OSError :: "exn \<Rightarrow> bool" where
  "is_OSError OSError = True"
| "is_OSError TimeoutExpired = False"
| "is_OSError UnicodeDecodeError = False"
| "is_OSError UnicodeEncodeError = False"
| "is_OSError (Other_exception name) = False"

datatype git_command =
    Git_add string
  | Git_diff_cached_quiet
  | Git_commit string string
  | Git_push string string

datatype log_line = Committed string | Pushed | Push_failed | Error_logged exn

text \<open>
  What the outside world answers to the steps of one call, in the order the source takes
  them: each step either raises or completes (a subprocess with its return code, the read
  with the decoded text). A \<^verbatim>\<open>print\<close> is a step as well: \<open>print_result\<close> gives
  \<open>None\<close> when the line is written and the exception when \<^verbatim>\<open>print\<close> raises (a line
  that the encoding of the output cannot take, a closed output).
\<close>

record git_env =
  add_result :: "exn + int"
  diff_result :: "exn + int"
  read_result :: "exn + string"
  commit_result :: "exn + int"
  push_result :: "exn + int"
  print_result :: "log_line \<Rightarrow> exn option"

text \<open>How the body of the \<^verbatim>\<open>try\<close> statement ends.\<close>

datatype completion = Raised exn | Returned bool | Fell_through

record try_run =
  completion :: completion
  commands :: "git_command list"
  printed :: "log_line list"

text \<open>
  The end of a call: the value returned (\<open>Inr\<close>), or the exception that leaves the
  function (\<open>Inl\<close>), with the git commands issued and the lines printed.
\<close>

record commit_run =
  returned :: "exn + bool"
  issued :: "git_command list"
  logged :: "log_line list"

definition author :: string where
  "author = ''Geltrax69 <10lalitsingh01@gmail.com>''"

text \<open>Lines 86 to 90 of the source: the commit message for a file name and its content.\<close>

definition commit_message :: "string \<Rightarrow> string \<Rightarrow> string" where
  "commit_message file_name content =
    (let features = analyze_file content file_name;
         feature_str = (if features \<noteq> [] then join_str '', '' (take 3 features)
                        else ''code update'');
         base_name = splitext_root file_name
     in ''Update '' @ base_name @ '': '' @ feature_str @ '' (''
          @ str_of_nat (length (split_chr newline content)) @ '' lines)'')"

text \<open>
  The body of the \<^verbatim>\<open>try\<close> statement of \<^verbatim>\<open>commit_changes\<close>, lines 70 to 110. A step that
  raises ends the body; the steps after it are not taken.
\<close>

definition try_body :: "string \<Rightarrow> string \<Rightarrow> git_env \<Rightarrow> try_run" where
  "try_body file_path repo_path env =
    (let file_name = basename file_path;
         add = Git_add file_name;
         diff = Git_diff_cached_quiet
     in case add_result env of
          Inl e \<Rightarrow> \<lparr>completion = Raised e, commands = [add], printed = []\<rparr>
        | Inr _ \<Rightarrow>
          (case diff_result env of
             Inl e \<Rightarrow> \<lparr>completion = Raised e, commands = [add, diff], printed = []\<rparr>
           | Inr returncode \<Rightarrow>
             if returncode \<noteq> 0 then
               (case read_result env of
                  Inl e \<Rightarrow> \<lparr>completion = Raised e, commands = [add, diff], printed = []\<rparr>
                | Inr content \<Rightarrow>
                  (let msg = commit_message file_name content;
                       commit = Git_commit msg author;
                       push = Git_push ''origin'' ''main''
                   in case commit_result env of
                        Inl e \<Rightarrow>
                          \<lparr>completion = Raised e, commands = [add, diff, commit], printed = []\<rparr>
                      | Inr commit_code \<Rightarrow>
                        if commit_code = 0 then
                          (case print_result env (Committed msg) of
                             Some e \<Rightarrow>
                               \<lparr>completion = Raised e, commands = [add, diff, commit],
                                printed = []\<rparr>
                           | None \<Rightarrow>
                             (case push_result env of
                                Inl e \<Rightarrow>
                                  \<lparr>completion = Raised e,
                                   commands = [add, diff, commit, push],
                                   printed = [Committed msg]\<rparr>
                              | Inr push_code \<Rightarrow>
                                (let line = (if push_code = 0 then Pushed else Push_failed)
                                 in case print_result env line of
                                      Some e \<Rightarrow>
                                        \<lparr>completion = Raised e,
                                         commands = [add, diff, commit, push],
                                         printed = [Committed msg]\<rparr>
                                    | None \<Rightarrow>
                                        \<lparr>completion = Returned True,
                                         commands = [add, diff, commit, push],
                                         printed = [Committed msg, line]\<rparr>)))
                        else
                          \<lparr>completion = Fell_through, commands = [add, diff, commit],
                           printed = []\<rparr>))
             else \<lparr>completion = Fell_through, commands = [add, diff], printed = []\<rparr>))"

text \<open>
  \<^verbatim>\<open>commit_changes\<close>: the \<^verbatim>\<open>try\<close> body, the handler \<^verbatim>\<open>except Exception as e\<close> that prints
  the error (line 112), and the final \<^verbatim>\<open>return False\<close>. The \<^verbatim>\<open>print\<close> of the handler
  stands in no \<^verbatim>\<open>try\<close>: the exception it raises leaves the function.
\<close>

definition commit_changes :: "string \<Rightarrow> string \<Rightarrow> git_env \<Rightarrow> commit_run" where
  "commit_changes file_path repo_path env =
    (let run = try_body file_path repo_path env
     in case completion run of
          Returned b \<Rightarrow> \<lparr>returned = Inr b, issued = commands run, logged = printed run\<rparr>
        | Raised e \<Rightarrow>
            (case print_result env (Error_logged e) of
               Some x \<Rightarrow> \<lparr>returned = Inl x, issued = commands run, logged = printed run\<rparr>
             | None \<Rightarrow>
                 \<lparr>returned = Inr False, issued = commands run,
                  logged = printed run @ [Error_logged e]\<rparr>)
        | Fell_through \<Rightarrow>
            \<lparr>returned = Inr False, issued = commands run, logged = printed run\<rparr>)"

text \<open>
  The steps at which the sequence can raise \<open>e\<close>, from the answers of the outside world
  alone: a step raises only when the steps before it let the control reach it.
\<close>

definition raises_in_sequence :: "string \<Rightarrow> git_env \<Rightarrow> exn \<Rightarrow> bool" where
  "raises_in_sequence file_path env e =
    (case add_result env of
       Inl a \<Rightarrow> a = e
     | Inr _ \<Rightarrow>
       (case diff_result env of
          Inl d \<Rightarrow> d = e
        | Inr returncode \<Rightarrow>
            returncode \<noteq> 0 \<and>
            (case read_result env of
               Inl r \<Rightarrow> r = e
             | Inr content \<Rightarrow>
               (case commit_result env of
                  Inl c \<Rightarrow> c = e
                | Inr commit_code \<Rightarrow>
                    commit_code = 0 \<and>
                    (case print_result env
                            (Committed (commit_message (basename file_path) content)) of
                       Some x \<Rightarrow> x = e
                     | None \<Rightarrow>
                       (case push_result env of
                          Inl x \<Rightarrow> x = e
                        | Inr push_code \<Rightarrow>
                            print_result env (if push_code = 0 then Pushed else Push_failed)
                              = Some e))))))"

text \<open>
  The number of lines of a text, as Python's \<^verbatim>\<open>splitlines\<close> and the iteration over a file
  count them: every newline ends a line, and what follows the last newline is a line when it
  is not empty. This definition follows the words of the specification, not the source.
\<close>

fun text_lines :: "string \<Rightarrow> string list" where
  "text_lines [] = []"
| "text_lines (c # cs) =
    (if c = newline then [] # text_lines cs
     else (case text_lines cs of
             [] \<Rightarrow> [[c]]
           | l # ls \<Rightarrow> (c # l) # ls))"

section \<open>The File Scanner: \<^verbatim>\<open>get_go_files\<close>\<close>

text \<open>
  A directory tree: a regular file, or a directory with its entries in the order the
  directory is scanned.
\<close>

datatype node = File | Dir "(string \<times> node) list"

fun entries :: "node \<Rightarrow> (string \<times> node) list" where
  "entries File = []"
| "entries (Dir es) = es"

fun is_file :: "node \<Rightarrow> bool" where
  "is_file File = True"
| "is_file (Dir es) = False"

text \<open>The pattern \<^verbatim>\<open>*.go\<close> on one name: the star matches any characters, also none.\<close>

definition fnmatch_go :: "string \<Rightarrow> bool" where
  "fnmatch_go name = suffix ''.go'' name"

text \<open>
  A \<^verbatim>\<open>pathlib\<close> path (POSIX): its root (empty, one slash or two) and its parts.
  \<^verbatim>\<open>Path(p)\<close> drops the empty parts and the parts that are a single dot, so repeated and
  trailing slashes disappear; a path that starts with exactly two slashes keeps both.
\<close>

type_synonym path = "string \<times> string list"

definition Path :: "string \<Rightarrow> path" where
  "Path p =
    (if prefix ''//'' p \<and> \<not> prefix ''///'' p then ''//''
     else if prefix ''/'' p then ''/''
     else [],
     filter (\<lambda>part. part \<noteq> [] \<and> part \<noteq> ''.'') (split_chr (CHR ''/'') p))"

text \<open>\<^verbatim>\<open>str\<close> of a path: the root and the parts joined by slashes, a dot for the empty path.\<close>

definition str_path :: "path \<Rightarrow> string" where
  "str_path q =
    (if fst q = [] \<and> snd q = [] then ''.'' else fst q @ join_str ''/'' (snd q))"

text \<open>The path of an entry of a directory.\<close>

definition child_path :: "path \<Rightarrow> string \<Rightarrow> path" where
  "child_path dir name = (fst dir, snd dir @ [name])"

text \<open>\<^verbatim>\<open>dir.glob('*.go')\<close>: the entries of the directory itself whose name matches.\<close>

definition glob_here :: "path \<Rightarrow> node \<Rightarrow> (path \<times> node) list" where
  "glob_here dir t =
    map (\<lambda>e. (child_path dir (fst e), snd e)) (filter (\<lambda>e. fnmatch_go (fst e)) (entries t))"

text \<open>
  \<^verbatim>\<open>dir.glob('**/*.go')\<close>: the two stars stand for the directory itself and every
  directory beneath it, so the matching entries of the directory come first, then those of
  each subdirectory.
\<close>

fun glob_rec :: "path \<Rightarrow> node \<Rightarrow> (path \<times> node) list" where
  "glob_rec dir File = []"
| "glob_rec dir (Dir es) =
    glob_here dir (Dir es)
    @ concat (map (\<lambda>e. glob_rec (child_path dir (fst e)) (snd e)) es)"

text \<open>
  \<^verbatim>\<open>get_go_files\<close>. The second argument is the tree at \<open>repo_path\<close>, \<open>None\<close> when nothing
  is there; globbing in what is not a directory finds nothing.
\<close>

definition get_go_files :: "string \<Rightarrow> node option \<Rightarrow> string list" where
  "get_go_files repo_path fs =
    (case fs of
       None \<Rightarrow> []
     | Some t \<Rightarrow>
       (let go_files = [];
            go_files = go_files @ glob_here (Path repo_path) t;
            go_files = go_files @ glob_rec (Path repo_path) t
        in map (\<lambda>f. str_path (fst f)) (filter (\<lambda>f. is_file (snd f)) go_files)))"

text \<open>
  The regular files found directly in a directory or at any depth beneath it, each with its
  path and its name, once for each entry of the tree. This definition follows the words of
  the specification, not the source.
\<close>

fun files_beneath :: "path \<Rightarrow> node \<Rightarrow> (path \<times> string) list" where
  "files_beneath dir File = []"
| "files_beneath dir (Dir es) =
    concat (map (\<lambda>e. if is_file (snd e) then [(child_path dir (fst e), fst e)]
                      else files_beneath (child_path dir (fst e)) (snd e)) es)"

section \<open>The Watch Loop: \<^verbatim>\<open>main\<close>\<close>

text \<open>What the program prints and does, line by line of its output.\<close>

datatype event =
    Not_a_git_repository string
  | No_go_files_found string
  | Watching string
  | Repository_line
  | Files_tracked nat
  | Tracked string
  | Auto_commit_enabled
  | New_file_detected string
  | Settle_delay
  | Changed string
  | Committer_called string string
  | Watcher_stopped

text \<open>
  The state of the loop: the tracked modification times, what has happened so far, and the
  exception that is on its way out of the loop, if any. No handler of \<^verbatim>\<open>main\<close> catches
  such an exception: it ends the process.
\<close>

record watch_state =
  file_mtimes :: "string \<rightharpoonup> real"
  trace :: "event list"
  failure :: "exn option"

text \<open>
  One poll: the tree under the repository path when the loop rescans; what
  \<^verbatim>\<open>os.path.getmtime\<close> gives to the read number \<open>i\<close> of the cycle (\<open>None\<close>: it raises
  \<^verbatim>\<open>OSError\<close>); what \<^verbatim>\<open>print\<close> does with a line (\<open>None\<close>: it is written); and the
  answers of the outside world to the call of the Committer made after the read number
  \<open>i\<close>. A path that the scan lists twice is read twice, and the two reads may differ.
\<close>

record poll =
  tree_now :: "node option"
  getmtime_now :: "nat \<Rightarrow> string \<Rightarrow> real option"
  print_now :: "event \<Rightarrow> exn option"
  git_now :: "nat \<Rightarrow> git_env"

text \<open>
  The sentinel of a path whose modification time has not been seen: the literal \<^verbatim>\<open>0\<close> of
  lines 163, 176 and 182.
\<close>

definition unseen :: real where
  "unseen = 0"

text \<open>
  Lines 174 to 176: the body of the loop that checks for new files. The notice is printed
  before the path is recorded, and outside the inner \<^verbatim>\<open>try\<close>.
\<close>

definition note_new_file :: "poll \<Rightarrow> string \<Rightarrow> watch_state \<Rightarrow> watch_state" where
  "note_new_file p f st =
    (if file_mtimes st f = None
     then (case print_now p (New_file_detected f) of
             Some e \<Rightarrow> st\<lparr>failure := Some e\<rparr>
           | None \<Rightarrow> st\<lparr>trace := trace st @ [New_file_detected f],
                         file_mtimes := (file_mtimes st)(f \<mapsto> unseen)\<rparr>)
     else st)"

fun note_new_files :: "poll \<Rightarrow> string list \<Rightarrow> watch_state \<Rightarrow> watch_state" where
  "note_new_files p [] st = st"
| "note_new_files p (f # rest) st =
    (let st = note_new_file p f st
     in if failure st = None then note_new_files p rest st else st)"

text \<open>
  Line 190, \<^verbatim>\<open>except OSError: pass\<close>: an exception raised inside the inner \<^verbatim>\<open>try\<close> is
  dropped when it is an \<^verbatim>\<open>OSError\<close> and leaves the loop otherwise.
\<close>

definition inner_except :: "exn \<Rightarrow> watch_state \<Rightarrow> watch_state" where
  "inner_except e st = (if is_OSError e then st else st\<lparr>failure := Some e\<rparr>)"

text \<open>
  Lines 180 to 191: the body of the loop that checks each file for modifications, at the
  read number \<open>i\<close> of the cycle. The value that \<^verbatim>\<open>commit_changes\<close> returns is discarded;
  an exception that leaves it is raised inside the inner \<^verbatim>\<open>try\<close>.
\<close>

definition check_file :: "string \<Rightarrow> poll \<Rightarrow> nat \<Rightarrow> string \<Rightarrow> watch_state \<Rightarrow> watch_state" where
  "check_file repo_path p i file_path st =
    (case getmtime_now p i file_path of
       None \<Rightarrow> st
     | Some current_mtime \<Rightarrow>
       (let last_mtime = (case file_mtimes st file_path of None \<Rightarrow> unseen | Some t \<Rightarrow> t)
        in if current_mtime > last_mtime then
             (let st = st\<lparr>file_mtimes := (file_mtimes st)(file_path \<mapsto> current_mtime)\<rparr>
              in if last_mtime > 0 then
                   (let st = st\<lparr>trace := trace st @ [Settle_delay]\<rparr>
                    in case print_now p (Changed file_path) of
                         Some e \<Rightarrow> inner_except e st
                       | None \<Rightarrow>
                         (let st = st\<lparr>trace := trace st
                                       @ [Changed file_path,
                                          Committer_called file_path repo_path]\<rparr>
                          in case returned (commit_changes file_path repo_path (git_now p i)) of
                               Inl e \<Rightarrow> inner_except e st
                             | Inr b \<Rightarrow> st))
                 else st)
           else st))"

fun check_files :: "string \<Rightarrow> poll \<Rightarrow> nat \<Rightarrow> string list \<Rightarrow> watch_state \<Rightarrow> watch_state" where
  "check_files repo_path p i [] st = st"
| "check_files repo_path p i (file_path # rest) st =
    (let st = check_file repo_path p i file_path st
     in if failure st = None then check_files repo_path p (Suc i) rest st else st)"

text \<open>Lines 169 to 191: one turn of the \<^verbatim>\<open>while\<close> loop after its sleep.\<close>

definition poll_cycle :: "string \<Rightarrow> poll \<Rightarrow> watch_state \<Rightarrow> watch_state" where
  "poll_cycle repo_path p st =
    (let current_go_files = get_go_files repo_path (tree_now p);
         st = note_new_files p current_go_files st
     in if failure st = None then check_files repo_path p 0 current_go_files st else st)"

text \<open>The events that one poll cycle adds to the trace.\<close>

definition cycle_events :: "string \<Rightarrow> poll \<Rightarrow> watch_state \<Rightarrow> event list" where
  "cycle_events repo_path p st = drop (length (trace st)) (trace (poll_cycle repo_path p st))"

text \<open>
  What the operating system answers at startup: \<^verbatim>\<open>os.path.abspath\<close>, \<^verbatim>\<open>os.path.isfile\<close>,
  \<^verbatim>\<open>os.path.exists\<close>, the tree under a path, \<^verbatim>\<open>os.path.getmtime\<close> for the read number
  \<open>i\<close> of the initial scan, and what \<^verbatim>\<open>print\<close> does with a line.
\<close>

record world =
  abspath :: "string \<Rightarrow> string"
  isfile :: "string \<Rightarrow> bool"
  path_exists :: "string \<Rightarrow> bool"
  tree_at :: "string \<Rightarrow> node option"
  getmtime_start :: "nat \<Rightarrow> string \<Rightarrow> real option"
  print_start :: "event \<Rightarrow> exn option"

text \<open>Lines 129 to 136: the repository path from the command line.\<close>

definition resolve_repo_path :: "world \<Rightarrow> string list \<Rightarrow> string" where
  "resolve_repo_path w argv =
    (if length argv < 2 then abspath w ''.''
     else (let arg_path = abspath w (argv ! 1)
           in if isfile w arg_path then dirname arg_path else arg_path))"

text \<open>Lines 158 to 163: the first modification times, \<^verbatim>\<open>0\<close> where the read fails.\<close>

fun init_mtimes ::
  "(nat \<Rightarrow> string \<Rightarrow> real option) \<Rightarrow> nat \<Rightarrow> string list \<Rightarrow> (string \<rightharpoonup> real) \<Rightarrow> (string \<rightharpoonup> real)"
where
  "init_mtimes getmtime i [] m = m"
| "init_mtimes getmtime i (f # fs) m =
    init_mtimes getmtime (Suc i) fs
      (m(f \<mapsto> (case getmtime i f of None \<Rightarrow> 0 | Some t \<Rightarrow> t)))"

text \<open>
  A run of \<^verbatim>\<open>print\<close> statements: the lines written, and the exception of the first
  \<^verbatim>\<open>print\<close> that raises.
\<close>

fun print_all :: "(event \<Rightarrow> exn option) \<Rightarrow> event list \<Rightarrow> event list \<times> exn option" where
  "print_all pr [] = ([], None)"
| "print_all pr (ev # evs) =
    (case pr ev of
       Some e \<Rightarrow> ([], Some e)
     | None \<Rightarrow> (let rest = print_all pr evs in (ev # fst rest, snd rest)))"

text \<open>
  What happens after startup, in order: a poll cycle runs, or the operator interrupts the
  process (\<^verbatim>\<open>KeyboardInterrupt\<close>, taken between two cycles), with what the \<^verbatim>\<open>print\<close> of
  the stop notice at line 194 does. A process whose ticks end without an interrupt is
  still watching: it has not exited.
\<close>

datatype tick = Poll poll | Interrupt "exn option"

text \<open>
  The end of the process: \<^verbatim>\<open>sys.exit\<close> with a code, an exception that no handler
  catches, or none yet. The interpreter ends with the exit code 1 on an uncaught exception.
\<close>

datatype outcome = Exited int | Crashed exn | Still_watching


fun watch_loop :: "string \<Rightarrow> tick list \<Rightarrow> watch_state \<Rightarrow> outcome \<times> watch_state" where
  "watch_loop repo_path [] st = (Still_watching, st)"
| "watch_loop repo_path (Interrupt stop # rest) st =
    (case stop of
       Some e \<Rightarrow> (Crashed e, st)
     | None \<Rightarrow> (Exited 0, st\<lparr>trace := trace st @ [Watcher_stopped]\<rparr>))"
| "watch_loop repo_path (Poll p # rest) st =
    (let st = poll_cycle repo_path p st
     in case failure st of
          Some e \<Rightarrow> (Crashed e, st)
        | None \<Rightarrow> watch_loop repo_path rest st)"

definition main :: "world \<Rightarrow> string list \<Rightarrow> tick list \<Rightarrow> outcome \<times> event list" where
  "main w argv ticks =
    (let repo_path = resolve_repo_path w argv
     in if \<not> path_exists w (path_join repo_path ''.git'')
        then (case print_start w (Not_a_git_repository repo_path) of
                Some e \<Rightarrow> (Crashed e, [])
              | None \<Rightarrow> (Exited 1, [Not_a_git_repository repo_path]))
        else (let go_files = get_go_files repo_path (tree_at w repo_path)
              in if go_files = []
                 then (case print_start w (No_go_files_found repo_path) of
                         Some e \<Rightarrow> (Crashed e, [])
                       | None \<Rightarrow> (Exited 1, [No_go_files_found repo_path]))
                 else (let banner = print_all (print_start w)
                             ([Watching repo_path, Repository_line,
                               Files_tracked (length go_files)]
                              @ map Tracked go_files @ [Auto_commit_enabled])
                       in case snd banner of
                            Some e \<Rightarrow> (Crashed e, fst banner)
                          | None \<Rightarrow>
                            (let st = \<lparr>file_mtimes =
                                        init_mtimes (getmtime_start w) 0 go_files Map.empty,
                                      trace = fst banner, failure = None\<rparr>;
                                 run = watch_loop repo_path ticks st
                             in (fst run, trace (snd run))))))"




text \<open>
  Answers of the outside world in which nothing raises and nothing is staged: an input for
  the examples below.
\<close>

definition calm_git :: git_env where
  "calm_git = \<lparr>add_result = Inr 0, diff_result = Inr 0, read_result = Inr [],
      commit_result = Inr 0, push_result = Inr 0, print_result = (\<lambda>line. None)\<rparr>"

section \<open>Properties of the Analyzer\<close>

lemma append_if_subseq:
  "subseq features labels \<Longrightarrow> subseq (append_if cond label features) (labels @ [label])"
  by (simp add: append_if_def list_emb_append_mono subseq_rev_drop_many)

lemma analyze_file_subseq: "subseq (analyze_file content file_name) checklist"
proof -
  have split: "checklist =
      (((((((((((((((((([] @ [''imports'']) @ [''main package'']) @ [''functions''])
        @ [''types'']) @ [''interface'']) @ [''goroutines'']) @ [''channels'']) @ [''defer''])
        @ [''fmt'']) @ [''http'']) @ [''json'']) @ [''io'']) @ [''os'']) @ [''sync''])
        @ [''map'']) @ [''slice'']) @ [''append'']) @ [''error handling''])"
    by (simp add: checklist_def)
  show ?thesis
    unfolding analyze_file_def Let_def split
    by (intro append_if_subseq) simp
qed

lemma distinct_checklist: "distinct checklist"
  by (simp add: checklist_def)

lemma subseq_keeps_distinct: "subseq xs ys \<Longrightarrow> distinct ys \<Longrightarrow> distinct xs"
  by (auto simp: subseq_conv_nths)

text \<open>
  C7. For every file text, the label list that \<^verbatim>\<open>analyze_file\<close> returns is a subsequence
  of the fixed checklist: it keeps the checklist's order, holds no label twice, and is no
  longer than the checklist (18 labels).
\<close>

theorem analyze_file_checklist:
  "subseq (analyze_file content file_name) checklist
   \<and> distinct (analyze_file content file_name)
   \<and> length (analyze_file content file_name) \<le> length checklist
   \<and> length checklist = 18"
proof -
  have s: "subseq (analyze_file content file_name) checklist"
    by (rule analyze_file_subseq)
  have d: "distinct (analyze_file content file_name)"
    using s distinct_checklist by (rule subseq_keeps_distinct)
  have l: "length (analyze_file content file_name) \<le> length checklist"
    using s by (rule list_emb_length)
  have n: "length checklist = 18"
    by (simp add: checklist_def)
  from s d l n show ?thesis by simp
qed

text \<open>
  C10. The result of \<^verbatim>\<open>analyze_file\<close> is a function of the content alone: two calls on the
  same content with any two file names return the same label list.
\<close>

theorem analyze_file_ignores_file_name:
  "analyze_file content file_name1 = analyze_file content file_name2"
  by (simp add: analyze_file_def)

section \<open>Properties of the Committer\<close>

lemma try_body_raises_iff:
  "completion (try_body file_path repo_path env) = Raised e
     \<longleftrightarrow> raises_in_sequence file_path env e"
  by (auto simp: try_body_def raises_in_sequence_def Let_def split: sum.splits option.splits)

lemma commit_changes_escapes_iff:
  "returned (commit_changes file_path repo_path env) = Inl x
     \<longleftrightarrow> (\<exists>e. raises_in_sequence file_path env e \<and> print_result env (Error_logged e) = Some x)"
proof -
  have "\<And>e. raises_in_sequence file_path env e
      \<longleftrightarrow> completion (try_body file_path repo_path env) = Raised e"
    by (simp add: try_body_raises_iff)
  then show ?thesis
    by (auto simp: commit_changes_def Let_def split: completion.splits option.splits)
qed

lemma caught_when_handler_prints:
  assumes "raises_in_sequence file_path env e"
    and "print_result env (Error_logged e) = None"
  shows "returned (commit_changes file_path repo_path env) = Inr False
         \<and> logged (commit_changes file_path repo_path env)
             = printed (try_body file_path repo_path env) @ [Error_logged e]"
proof -
  from assms(1) have r: "completion (try_body file_path repo_path env) = Raised e"
    by (simp add: try_body_raises_iff)
  with assms(2) show ?thesis
    by (simp add: commit_changes_def Let_def)
qed

text \<open>
  C4, as amended. Whatever step of the sequence raises an exception (stage, check, read,
  commit, push, or a \<^verbatim>\<open>print\<close> inside the \<^verbatim>\<open>try\<close>), the handler of \<^verbatim>\<open>commit_changes\<close>
  catches it; when the handler's own \<^verbatim>\<open>print\<close> of the error succeeds, the error is
  logged after what was printed before and the function returns \<open>False\<close>. An exception
  leaves the function exactly when a step has raised and the handler's \<^verbatim>\<open>print\<close> raises
  in its turn: it is that exception which leaves.
\<close>

theorem exception_is_caught_and_logged:
  "(raises_in_sequence file_path env e \<and> print_result env (Error_logged e) = None \<longrightarrow>
      returned (commit_changes file_path repo_path env) = Inr False
      \<and> logged (commit_changes file_path repo_path env)
          = printed (try_body file_path repo_path env) @ [Error_logged e])
   \<and> (returned (commit_changes file_path repo_path env) = Inl x \<longleftrightarrow>
        (\<exists>e. raises_in_sequence file_path env e \<and> print_result env (Error_logged e) = Some x))"
  using caught_when_handler_prints [of file_path env e repo_path]
    commit_changes_escapes_iff [of file_path repo_path env x]
  by blast

text \<open>A file that cannot be decoded, with an output that takes every line.\<close>

theorem exception_is_caught_and_logged_witness:
  "raises_in_sequence ''/repo/main.go''
     \<lparr>add_result = Inr 0, diff_result = Inr 1, read_result = Inl UnicodeDecodeError,
      commit_result = Inr 0, push_result = Inr 0, print_result = (\<lambda>line. None)\<rparr>
     UnicodeDecodeError
   \<and> returned (commit_changes ''/repo/main.go'' ''/repo''
     \<lparr>add_result = Inr 0, diff_result = Inr 1, read_result = Inl UnicodeDecodeError,
      commit_result = Inr 0, push_result = Inr 0, print_result = (\<lambda>line. None)\<rparr>)
     = Inr False
   \<and> logged (commit_changes ''/repo/main.go'' ''/repo''
     \<lparr>add_result = Inr 0, diff_result = Inr 1, read_result = Inl UnicodeDecodeError,
      commit_result = Inr 0, push_result = Inr 0, print_result = (\<lambda>line. None)\<rparr>)
     = [Error_logged UnicodeDecodeError]"
proof -
  let ?env = "\<lparr>add_result = Inr 0, diff_result = Inr 1, read_result = Inl UnicodeDecodeError,
      commit_result = Inr 0, push_result = Inr 0, print_result = (\<lambda>line. None)\<rparr>"
  have h: "raises_in_sequence ''/repo/main.go'' ?env UnicodeDecodeError"
    by (simp add: raises_in_sequence_def)
  have p: "print_result ?env (Error_logged UnicodeDecodeError) = None"
    by simp
  have t: "printed (try_body ''/repo/main.go'' ''/repo'' ?env) = []"
    by (simp add: try_body_def)
  from exception_is_caught_and_logged
    [of "''/repo/main.go''" ?env UnicodeDecodeError "''/repo''"] h p t
  show ?thesis by simp
qed

text \<open>
  C4, as stated, fails: the file has vanished, the read raises, and the handler's
  \<^verbatim>\<open>print\<close> of the error raises in its turn (the message holds the name of the file, which
  the encoding of the output cannot take). The exception leaves \<^verbatim>\<open>commit_changes\<close>.
\<close>

theorem handler_print_raises:
  "commit_changes ''/repo/main.go'' ''/repo''
     \<lparr>add_result = Inr 0, diff_result = Inr 1, read_result = Inl OSError,
      commit_result = Inr 0, push_result = Inr 0,
      print_result = (\<lambda>line. if line = Error_logged OSError then Some UnicodeEncodeError
                              else None)\<rparr>
   = \<lparr>returned = Inl UnicodeEncodeError,
      issued = [Git_add ''main.go'', Git_diff_cached_quiet], logged = []\<rparr>"
  by (simp add: commit_changes_def try_body_def basename_def)

lemmas text_simps =
  commit_message_def analyze_file_def append_if_def splitext_root_def basename_def
  newline_def digit_chr_def Let_def

text \<open>
  C3, as amended. When the commit step succeeds and the lines are printed, the commit
  stands whatever the push does: the commands issued are the staging, the check, one commit
  and one push, with no rollback and no retry. The function returns \<open>True\<close> whenever the
  push completes, with any return code, and a failed push is logged. When the push raises
  (its timeout of 10 seconds), the exception is caught and logged like any other and the
  function returns \<open>False\<close>.
\<close>

theorem commit_stands_whatever_push_returns:
  assumes "add_result env = Inr a" and "diff_result env = Inr d" and "d \<noteq> 0"
    and "read_result env = Inr content" and "commit_result env = Inr 0"
    and "print_result env (Committed (commit_message (basename file_path) content)) = None"
    and "print_result env
           (case push_result env of
              Inr push_code \<Rightarrow> if push_code = 0 then Pushed else Push_failed
            | Inl e \<Rightarrow> Error_logged e) = None"
  shows "commit_changes file_path repo_path env =
     \<lparr>returned = (case push_result env of Inr push_code \<Rightarrow> Inr True | Inl e \<Rightarrow> Inr False),
      issued = [Git_add (basename file_path), Git_diff_cached_quiet,
                Git_commit (commit_message (basename file_path) content) author,
                Git_push ''origin'' ''main''],
      logged = [Committed (commit_message (basename file_path) content),
                case push_result env of
                  Inr push_code \<Rightarrow> if push_code = 0 then Pushed else Push_failed
                | Inl e \<Rightarrow> Error_logged e]\<rparr>"
  using assms
  by (cases "push_result env") (simp_all add: commit_changes_def try_body_def Let_def)

text \<open>A push that fails with return code 1 after a successful commit.\<close>

theorem commit_stands_whatever_push_returns_witness:
  "commit_changes ''/repo/main.go'' ''/repo''
     \<lparr>add_result = Inr 0, diff_result = Inr 1,
      read_result = Inr (''package main'' @ [newline]),
      commit_result = Inr 0, push_result = Inr 1, print_result = (\<lambda>line. None)\<rparr>
   = \<lparr>returned = Inr True,
      issued = [Git_add ''main.go'', Git_diff_cached_quiet,
                Git_commit ''Update main: main package (2 lines)'' author,
                Git_push ''origin'' ''main''],
      logged = [Committed ''Update main: main package (2 lines)'', Push_failed]\<rparr>"
  using commit_stands_whatever_push_returns
    [of "\<lparr>add_result = Inr 0, diff_result = Inr 1,
      read_result = Inr (''package main'' @ [newline]),
      commit_result = Inr 0, push_result = Inr 1, print_result = (\<lambda>line. None)\<rparr>"
      0 1 "''package main'' @ [newline]" "''/repo/main.go''" "''/repo''"]
  by (simp add: text_simps)

text \<open>
  C3, as stated, fails: the commit succeeds and the function returns \<open>False\<close>, first when
  the push runs into its timeout, then when the \<^verbatim>\<open>print\<close> of the commit notice raises
  (the notice starts with a check mark that the encoding of the output cannot take) and the
  push is not even tried.
\<close>

theorem push_timeout_reports_no_commit:
  "commit_changes ''/repo/main.go'' ''/repo''
     \<lparr>add_result = Inr 0, diff_result = Inr 1,
      read_result = Inr (''package main'' @ [newline]),
      commit_result = Inr 0, push_result = Inl TimeoutExpired,
      print_result = (\<lambda>line. None)\<rparr>
   = \<lparr>returned = Inr False,
      issued = [Git_add ''main.go'', Git_diff_cached_quiet,
                Git_commit ''Update main: main package (2 lines)'' author,
                Git_push ''origin'' ''main''],
      logged = [Committed ''Update main: main package (2 lines)'',
                Error_logged TimeoutExpired]\<rparr>
   \<and> commit_changes ''/repo/main.go'' ''/repo''
     \<lparr>add_result = Inr 0, diff_result = Inr 1,
      read_result = Inr (''package main'' @ [newline]),
      commit_result = Inr 0, push_result = Inr 0,
      print_result = (\<lambda>line. if line = Error_logged UnicodeEncodeError then None
                              else Some UnicodeEncodeError)\<rparr>
   = \<lparr>returned = Inr False,
      issued = [Git_add ''main.go'', Git_diff_cached_quiet,
                Git_commit ''Update main: main package (2 lines)'' author],
      logged = [Error_logged UnicodeEncodeError]\<rparr>"
  by (simp add: commit_changes_def try_body_def text_simps)

lemma commit_changes_push_raised:
  "add_result env = Inr a \<Longrightarrow> diff_result env = Inr d \<Longrightarrow> d \<noteq> 0 \<Longrightarrow>
   read_result env = Inr content \<Longrightarrow> commit_result env = Inr 0 \<Longrightarrow>
   print_result env (Committed (commit_message (basename file_path) content)) = None \<Longrightarrow>
   push_result env = Inl e \<Longrightarrow> print_result env (Error_logged e) = None \<Longrightarrow>
     commit_changes file_path repo_path env =
       \<lparr>returned = Inr False,
        issued = [Git_add (basename file_path), Git_diff_cached_quiet,
                  Git_commit (commit_message (basename file_path) content) author,
                  Git_push ''origin'' ''main''],
        logged = [Committed (commit_message (basename file_path) content), Error_logged e]\<rparr>"
  by (simp add: commit_changes_def try_body_def Let_def)

lemma length_split_chr: "length (split_chr sep s) = Suc (count_list s sep)"
  by (induction s) (auto split: list.splits)

lemma text_lines_Nil: "text_lines s = [] \<longleftrightarrow> s = []"
  by (cases s) (auto split: list.splits)

lemma length_text_lines:
  "length (text_lines s) =
     count_list s newline + (if s = [] \<or> last s = newline then 0 else 1)"
  by (induction s) (auto simp: text_lines_Nil split: list.splits)

lemma line_count_off_by_one:
  "s \<noteq> [] \<Longrightarrow> last s = newline \<Longrightarrow>
     length (split_chr newline s) = Suc (length (text_lines s))"
  by (simp add: length_split_chr length_text_lines)

lemma commit_message_form:
  "commit_message file_name content =
     ''Update '' @ splitext_root file_name @ '': ''
       @ (if analyze_file content file_name = [] then ''code update''
          else join_str '', '' (take 3 (analyze_file content file_name)))
       @ '' ('' @ str_of_nat (Suc (count_list content newline)) @ '' lines)''"
  by (simp add: commit_message_def Let_def length_split_chr del: str_of_nat.simps)

lemma commit_changes_message:
  "add_result env = Inr a \<Longrightarrow> diff_result env = Inr d \<Longrightarrow> d \<noteq> 0 \<Longrightarrow>
   read_result env = Inr content \<Longrightarrow>
     issued (commit_changes file_path repo_path env) ! 2
       = Git_commit (commit_message (basename file_path) content) author"
  by (simp add: commit_changes_def try_body_def Let_def
      split: sum.splits completion.splits option.splits)

text \<open>
  C5 says that the message ends with the number of lines of the content. The message has
  the form the claim gives (\<open>commit_message_form\<close>), with one more than the number of
  newline characters as its count (\<open>length_split_chr\<close>): for a text that ends with a
  newline that is one more than its number of lines (\<open>line_count_off_by_one\<close>). A file of
  two lines is reported with 3 lines.
\<close>

theorem line_count_counts_trailing_newline:
  "commit_message ''hello.go'' (''package main'' @ [newline] @ ''func main() {}'' @ [newline])
     = ''Update hello: main package, functions (3 lines)''
   \<and> length (text_lines (''package main'' @ [newline] @ ''func main() {}'' @ [newline])) = 2"
  by (simp add: text_simps)

section \<open>Properties of the File Scanner\<close>

lemmas scan_simps =
  get_go_files_def glob_here_def fnmatch_go_def child_path_def Path_def str_path_def
  suffix_to_prefix Let_def

lemma glob_here_in_glob_rec: "set (glob_here dir t) \<subseteq> set (glob_rec dir t)"
  by (cases t) (simp_all add: glob_here_def)

lemma in_glob_here:
  "(q, n) \<in> set (glob_here dir (Dir es)) \<longleftrightarrow>
     (\<exists>e\<in>set es. fnmatch_go (fst e) \<and> q = child_path dir (fst e) \<and> n = snd e)"
  by (auto simp: glob_here_def)

lemma in_glob_rec:
  "(q, n) \<in> set (glob_rec dir (Dir es)) \<longleftrightarrow>
     (q, n) \<in> set (glob_here dir (Dir es))
     \<or> (\<exists>e\<in>set es. (q, n) \<in> set (glob_rec (child_path dir (fst e)) (snd e)))"
  by simp

lemma in_files_beneath:
  "(q, name) \<in> set (files_beneath dir (Dir es)) \<longleftrightarrow>
     (\<exists>e\<in>set es. if is_file (snd e) then q = child_path dir (fst e) \<and> name = fst e
                  else (q, name) \<in> set (files_beneath (child_path dir (fst e)) (snd e)))"
  by (auto split: if_splits)

lemma glob_rec_leaf: "is_file t \<Longrightarrow> glob_rec dir t = []"
  by (cases t) simp_all

lemma glob_rec_files:
  "(\<exists>n. (q, n) \<in> set (glob_rec dir t) \<and> is_file n)
     \<longleftrightarrow> (\<exists>name. (q, name) \<in> set (files_beneath dir t) \<and> fnmatch_go name)"
proof (induction dir t rule: glob_rec.induct)
  case (1 dir)
  then show ?case by simp
next
  case (2 dir es)
  have sub: "\<And>e. e \<in> set es \<Longrightarrow>
      (\<exists>n. (q, n) \<in> set (glob_rec (child_path dir (fst e)) (snd e)) \<and> is_file n)
        \<longleftrightarrow> (\<exists>name. (q, name) \<in> set (files_beneath (child_path dir (fst e)) (snd e))
              \<and> fnmatch_go name)"
    using "2.IH" by simp
  show ?case
  proof
    assume "\<exists>n. (q, n) \<in> set (glob_rec dir (Dir es)) \<and> is_file n"
    then obtain n where x: "(q, n) \<in> set (glob_rec dir (Dir es))" "is_file n"
      by blast
    from x(1) consider
        (here) "(q, n) \<in> set (glob_here dir (Dir es))"
      | (below) e where "e \<in> set es" "(q, n) \<in> set (glob_rec (child_path dir (fst e)) (snd e))"
      unfolding in_glob_rec by blast
    then show "\<exists>name. (q, name) \<in> set (files_beneath dir (Dir es)) \<and> fnmatch_go name"
    proof cases
      case here
      then obtain e where e: "e \<in> set es" "fnmatch_go (fst e)" "q = child_path dir (fst e)" "n = snd e"
        unfolding in_glob_here by blast
      from e x(2) have "(q, fst e) \<in> set (files_beneath dir (Dir es))"
        unfolding in_files_beneath by (intro bexI [of _ e]) simp_all
      with e(2) show ?thesis by blast
    next
      case below
      have nf: "\<not> is_file (snd e)"
        using below(2) glob_rec_leaf [of "snd e" "child_path dir (fst e)"] by auto
      from below(2) x(2) sub [OF below(1)] obtain name where
        name: "(q, name) \<in> set (files_beneath (child_path dir (fst e)) (snd e))" "fnmatch_go name"
        by blast
      from below(1) nf name(1) have "(q, name) \<in> set (files_beneath dir (Dir es))"
        unfolding in_files_beneath by (intro bexI [of _ e]) simp_all
      with name(2) show ?thesis by blast
    qed
  next
    assume "\<exists>name. (q, name) \<in> set (files_beneath dir (Dir es)) \<and> fnmatch_go name"
    then obtain name where f: "(q, name) \<in> set (files_beneath dir (Dir es))" "fnmatch_go name"
      by blast
    from f(1) obtain e where e: "e \<in> set es"
        "if is_file (snd e) then q = child_path dir (fst e) \<and> name = fst e
         else (q, name) \<in> set (files_beneath (child_path dir (fst e)) (snd e))"
      unfolding in_files_beneath by blast
    show "\<exists>n. (q, n) \<in> set (glob_rec dir (Dir es)) \<and> is_file n"
    proof (cases "is_file (snd e)")
      case True
      with e(2) have pn: "q = child_path dir (fst e)" "name = fst e" by simp_all
      from e(1) f(2) pn have "(q, snd e) \<in> set (glob_here dir (Dir es))"
        unfolding in_glob_here by (intro bexI [of _ e]) simp_all
      then have "(q, snd e) \<in> set (glob_rec dir (Dir es))"
        unfolding in_glob_rec by blast
      with True show ?thesis by blast
    next
      case False
      with e(2) have "(q, name) \<in> set (files_beneath (child_path dir (fst e)) (snd e))"
        by simp
      with f(2) sub [OF e(1)] obtain n where
        n: "(q, n) \<in> set (glob_rec (child_path dir (fst e)) (snd e))" "is_file n"
        by blast
      from e(1) n(1) have "(q, n) \<in> set (glob_rec dir (Dir es))"
        unfolding in_glob_rec by blast
      with n(2) show ?thesis by blast
    qed
  qed
qed

lemma get_go_files_set:
  "set (get_go_files repo_path (Some t))
     = {str_path q | q name. (q, name) \<in> set (files_beneath (Path repo_path) t) \<and> fnmatch_go name}"
proof -
  let ?d = "Path repo_path"
  have "set (get_go_files repo_path (Some t))
      = (\<lambda>f. str_path (fst f)) ` {x \<in> set (glob_here ?d t). is_file (snd x)}
        \<union> (\<lambda>f. str_path (fst f)) ` {x \<in> set (glob_rec ?d t). is_file (snd x)}"
    by (simp add: get_go_files_def Let_def)
  also have "\<dots> = (\<lambda>f. str_path (fst f)) ` {x \<in> set (glob_rec ?d t). is_file (snd x)}"
    using glob_here_in_glob_rec [of ?d t] by blast
  also have "\<dots> = {str_path q | q. \<exists>n. (q, n) \<in> set (glob_rec ?d t) \<and> is_file n}"
    by force
  also have "\<dots> = {str_path q | q name. (q, name) \<in> set (files_beneath ?d t) \<and> fnmatch_go name}"
    by (simp only: glob_rec_files) blast
  finally show ?thesis .
qed

lemma root_go_file_twice:
  assumes "(name, File) \<in> set es" and "fnmatch_go name"
  shows "\<not> distinct (get_go_files repo_path (Some (Dir es)))"
proof -
  let ?d = "Path repo_path"
  let ?files = "\<lambda>xs. map (\<lambda>f. str_path (fst f)) (filter (\<lambda>f. is_file (snd f)) xs)"
  from assms have here: "(child_path ?d name, File) \<in> set (glob_here ?d (Dir es))"
    by (force simp: glob_here_def)
  then have rec: "(child_path ?d name, File) \<in> set (glob_rec ?d (Dir es))"
    using glob_here_in_glob_rec by blast
  from here have "str_path (child_path ?d name) \<in> set (?files (glob_here ?d (Dir es)))"
    by force
  moreover from rec have "str_path (child_path ?d name) \<in> set (?files (glob_rec ?d (Dir es)))"
    by force
  moreover have "get_go_files repo_path (Some (Dir es))
      = ?files (glob_here ?d (Dir es)) @ ?files (glob_rec ?d (Dir es))"
    by (simp add: get_go_files_def Let_def)
  ultimately show ?thesis
    by auto
qed

text \<open>
  C1 says that every matching path occurs exactly once in the result. The paths returned
  are those of the \<^verbatim>\<open>.go\<close> files at any depth (\<open>get_go_files_set\<close>), but the pattern
  \<^verbatim>\<open>**/*.go\<close> also matches the files of the root itself, which \<^verbatim>\<open>*.go\<close> has already
  listed: every \<^verbatim>\<open>.go\<close> file directly in the root is returned twice
  (\<open>root_go_file_twice\<close>).
\<close>

theorem root_file_listed_twice:
  "get_go_files ''/repo'' (Some (Dir [(''main.go'', File), (''pkg'', Dir [(''util.go'', File)])]))
     = [''/repo/main.go'', ''/repo/main.go'', ''/repo/pkg/util.go'']"
  by (simp add: scan_simps)

section \<open>Properties of the Watch Loop\<close>

subsection \<open>One step of the loop that checks for new files\<close>

lemma note_new_file_mtimes:
  "file_mtimes (note_new_file p f st) =
     (if file_mtimes st f = None \<and> print_now p (New_file_detected f) = None
      then (file_mtimes st)(f \<mapsto> unseen) else file_mtimes st)"
  by (simp add: note_new_file_def split: option.splits)

lemma note_new_file_trace:
  "trace (note_new_file p f st) =
     trace st @ (if file_mtimes st f = None \<and> print_now p (New_file_detected f) = None
                 then [New_file_detected f] else [])"
  by (simp add: note_new_file_def split: option.splits)

lemma note_new_file_failure:
  "failure (note_new_file p f st) =
     (if file_mtimes st f = None \<and> print_now p (New_file_detected f) \<noteq> None
      then print_now p (New_file_detected f) else failure st)"
  by (auto simp: note_new_file_def split: option.splits)

lemma note_new_file_recorded:
  "failure (note_new_file p f st) = None \<Longrightarrow> f \<in> dom (file_mtimes (note_new_file p f st))"
  by (auto simp: note_new_file_def split: option.splits if_splits)


lemma note_new_files_stop:
  "failure (note_new_file p g st) \<noteq> None \<Longrightarrow>
     note_new_files p (g # fs) st = note_new_file p g st"
  by (auto simp: Let_def)

lemma note_new_files_sticky:
  "failure (note_new_files p fs st) = None \<Longrightarrow> failure st = None"
proof (induction fs arbitrary: st)
  case Nil
  then show ?case by simp
next
  case (Cons g fs)
  let ?s = "note_new_file p g st"
  have "failure ?s = None"
    using Cons by (cases "failure ?s = None") (simp_all add: Let_def)
  then show ?case
    by (auto simp: note_new_file_failure split: if_splits)
qed

lemma note_new_files_keeps:
  "file_mtimes st f = Some v \<Longrightarrow> file_mtimes (note_new_files p fs st) f = Some v"
proof (induction fs arbitrary: st)
  case Nil
  then show ?case by simp
next
  case (Cons g fs)
  from Cons.prems have "file_mtimes (note_new_file p g st) f = Some v"
    by (auto simp: note_new_file_mtimes)
  then show ?case
    using Cons.IH by (simp add: Let_def)
qed

lemma note_new_files_dom:
  "dom (file_mtimes st) \<subseteq> dom (file_mtimes (note_new_files p fs st))
   \<and> dom (file_mtimes (note_new_files p fs st)) \<subseteq> dom (file_mtimes st) \<union> set fs
   \<and> (failure (note_new_files p fs st) = None \<longrightarrow>
        dom (file_mtimes (note_new_files p fs st)) = dom (file_mtimes st) \<union> set fs)"
proof (induction fs arbitrary: st)
  case Nil
  then show ?case by simp
next
  case (Cons g fs)
  let ?s = "note_new_file p g st"
  have step: "dom (file_mtimes st) \<subseteq> dom (file_mtimes ?s)"
      "dom (file_mtimes ?s) \<subseteq> insert g (dom (file_mtimes st))"
    by (auto simp: note_new_file_mtimes split: if_splits)
  show ?case
  proof (cases "failure ?s = None")
    case True
    then have g: "dom (file_mtimes ?s) = insert g (dom (file_mtimes st))"
      using note_new_file_recorded [of p g st] step by blast
    have run: "note_new_files p (g # fs) st = note_new_files p fs ?s"
      using True by (simp add: Let_def)
    from Cons.IH [of ?s] g show ?thesis
      unfolding run by auto
  next
    case False
    then have run: "note_new_files p (g # fs) st = ?s"
      by (rule note_new_files_stop)
    from step False show ?thesis
      unfolding run by auto
  qed
qed

lemma note_new_files_trace:
  "\<exists>ns. trace (note_new_files p fs st) = trace st @ map New_file_detected ns
     \<and> distinct ns
     \<and> set ns \<subseteq> set fs - dom (file_mtimes st)
     \<and> (failure (note_new_files p fs st) = None \<longrightarrow> set ns = set fs - dom (file_mtimes st))
     \<and> (\<forall>f\<in>set ns. file_mtimes (note_new_files p fs st) f = Some unseen)"
proof (induction fs arbitrary: st)
  case Nil
  then show ?case by simp
next
  case (Cons g fs)
  let ?s = "note_new_file p g st"
  show ?case
  proof (cases "failure ?s = None")
    case False
    then have run: "note_new_files p (g # fs) st = ?s"
      by (rule note_new_files_stop)
    let ?ns = "if file_mtimes st g = None \<and> print_now p (New_file_detected g) = None
               then [g] else []"
    have "trace ?s = trace st @ map New_file_detected ?ns"
      by (simp add: note_new_file_trace)
    moreover have "distinct ?ns" and "set ?ns \<subseteq> set (g # fs) - dom (file_mtimes st)"
      by auto
    moreover have "\<forall>f\<in>set ?ns. file_mtimes ?s f = Some unseen"
      by (simp add: note_new_file_mtimes)
    ultimately show ?thesis
      unfolding run using False by (intro exI [of _ ?ns] conjI impI) simp_all
  next
    case True
    then have run: "note_new_files p (g # fs) st = note_new_files p fs ?s"
      by (simp add: Let_def)
    from Cons.IH [of ?s] obtain ns where ns:
      "trace (note_new_files p fs ?s) = trace ?s @ map New_file_detected ns"
      "distinct ns"
      "set ns \<subseteq> set fs - dom (file_mtimes ?s)"
      "failure (note_new_files p fs ?s) = None \<longrightarrow> set ns = set fs - dom (file_mtimes ?s)"
      "\<forall>f\<in>set ns. file_mtimes (note_new_files p fs ?s) f = Some unseen"
      by (elim exE conjE) (rule that)
    have g: "g \<in> dom (file_mtimes ?s)"
      using True by (rule note_new_file_recorded)
    show ?thesis
    proof (cases "file_mtimes st g = None")
      case new: True
      with True have pr: "print_now p (New_file_detected g) = None"
        by (auto simp: note_new_file_failure split: if_splits)
      from new pr have s: "trace ?s = trace st @ [New_file_detected g]"
          "file_mtimes ?s = (file_mtimes st)(g \<mapsto> unseen)"
        by (simp_all add: note_new_file_trace note_new_file_mtimes)
      have "file_mtimes ?s g = Some unseen"
        using s(2) by simp
      then have kept: "file_mtimes (note_new_files p fs ?s) g = Some unseen"
        by (rule note_new_files_keeps)
      have a: "trace (note_new_files p fs ?s) = trace st @ map New_file_detected (g # ns)"
        using ns(1) s(1) by simp
      have b: "distinct (g # ns)"
        using ns(2,3) g by auto
      have c: "set (g # ns) \<subseteq> set (g # fs) - dom (file_mtimes st)"
        using ns(3) s(2) new by auto
      have d: "failure (note_new_files p fs ?s) = None \<longrightarrow>
          set (g # ns) = set (g # fs) - dom (file_mtimes st)"
        using ns(4) s(2) new by auto
      have e: "\<forall>f\<in>set (g # ns). file_mtimes (note_new_files p fs ?s) f = Some unseen"
        using ns(5) kept by simp
      show ?thesis
        unfolding run
      proof (intro exI conjI)
        show "trace (note_new_files p fs ?s) = trace st @ map New_file_detected (g # ns)"
          by (fact a)
      qed (fact b c d e)+
    next
      case old: False
      then have s: "?s = st"
        by (auto simp: note_new_file_def)
      from old have "g \<in> dom (file_mtimes st)" by auto
      with ns show ?thesis
        unfolding run s by (intro exI [of _ ns]) auto
    qed
  qed
qed

subsection \<open>One step of the loop that checks for modifications\<close>

lemma inner_except_fields:
  "file_mtimes (inner_except e st) = file_mtimes st" "trace (inner_except e st) = trace st"
  by (simp_all add: inner_except_def)

lemma inner_except_sticky: "failure (inner_except e st) = None \<Longrightarrow> failure st = None"
  by (simp add: inner_except_def split: if_splits)

lemma check_file_sticky:
  "failure (check_file rp p i g st) = None \<Longrightarrow> failure st = None"
  by (auto simp: check_file_def Let_def inner_except_def
      split: option.splits if_splits sum.splits)

lemma check_file_other:
  "g \<noteq> f \<Longrightarrow> file_mtimes (check_file rp p i g st) f = file_mtimes st f"
  by (simp add: check_file_def Let_def inner_except_fields split: option.splits sum.splits)

lemma check_file_mono:
  "file_mtimes st f = Some v \<Longrightarrow>
     \<exists>v'. file_mtimes (check_file rp p i g st) f = Some v' \<and> v \<le> v'"
  by (cases "g = f")
    (auto simp: check_file_def Let_def inner_except_fields split: option.splits sum.splits)

lemma check_file_dom:
  "dom (file_mtimes st) \<subseteq> dom (file_mtimes (check_file rp p i g st))
   \<and> dom (file_mtimes (check_file rp p i g st)) \<subseteq> insert g (dom (file_mtimes st))"
  by (auto simp: check_file_def Let_def inner_except_fields
      split: option.splits sum.splits if_splits)

lemma check_file_trace:
  "\<exists>new. trace (check_file rp p i g st) = trace st @ new
     \<and> set new \<subseteq> {Settle_delay, Changed g, Committer_called g rp}"
  by (auto simp: check_file_def Let_def inner_except_fields split: option.splits sum.splits)

lemma check_file_unchanged:
  "file_mtimes st f = Some v \<Longrightarrow> (\<forall>t. getmtime_now p i f = Some t \<longrightarrow> t \<le> v) \<Longrightarrow>
     check_file rp p i f st = st"
  by (auto simp: check_file_def Let_def split: option.splits)


subsection \<open>The loop that checks for modifications\<close>

lemma check_files_go:
  "failure (check_file rp p i g st) = None \<Longrightarrow>
     check_files rp p i (g # fs) st = check_files rp p (Suc i) fs (check_file rp p i g st)"
  by (simp add: Let_def)

lemma check_files_stop:
  "failure (check_file rp p i g st) \<noteq> None \<Longrightarrow>
     check_files rp p i (g # fs) st = check_file rp p i g st"
  by (auto simp: Let_def)

lemma check_files_sticky:
  "failure (check_files rp p i fs st) = None \<Longrightarrow> failure st = None"
proof (induction fs arbitrary: i st)
  case Nil
  then show ?case by simp
next
  case (Cons g fs)
  let ?s = "check_file rp p i g st"
  have "failure ?s = None"
  proof (cases "failure ?s = None")
    case False
    then have "check_files rp p i (g # fs) st = ?s"
      by (rule check_files_stop)
    with Cons.prems show ?thesis
      by simp
  next
    case True
    then show ?thesis .
  qed
  then show ?case by (rule check_file_sticky)
qed

lemma check_files_mono:
  "file_mtimes st f = Some v \<Longrightarrow>
     \<exists>v'. file_mtimes (check_files rp p i fs st) f = Some v' \<and> v \<le> v'"
proof (induction fs arbitrary: i st v)
  case Nil
  then show ?case by simp
next
  case (Cons g fs)
  let ?s = "check_file rp p i g st"
  from Cons.prems obtain u where u: "file_mtimes ?s f = Some u" "v \<le> u"
    using check_file_mono by blast
  show ?case
  proof (cases "failure ?s = None")
    case False
    then have run: "check_files rp p i (g # fs) st = ?s"
      by (rule check_files_stop)
    from u show ?thesis
      unfolding run by simp
  next
    case True
    from Cons.IH [OF u(1)] obtain v' where
      "file_mtimes (check_files rp p (Suc i) fs ?s) f = Some v'" "u \<le> v'"
      by blast
    with u(2) True show ?thesis by (auto simp: check_files_go)
  qed
qed

lemma check_files_dom:
  "set fs \<subseteq> dom (file_mtimes st) \<Longrightarrow>
     dom (file_mtimes (check_files rp p i fs st)) = dom (file_mtimes st)"
proof (induction fs arbitrary: i st)
  case Nil
  then show ?case by simp
next
  case (Cons g fs)
  let ?s = "check_file rp p i g st"
  from Cons.prems have g: "g \<in> dom (file_mtimes st)" and fs: "set fs \<subseteq> dom (file_mtimes st)"
    by simp_all
  have d: "dom (file_mtimes ?s) = dom (file_mtimes st)"
    using g check_file_dom [of st rp p i g] by blast
  show ?case
  proof (cases "failure ?s = None")
    case False
    then have run: "check_files rp p i (g # fs) st = ?s"
      by (rule check_files_stop)
    from d show ?thesis
      unfolding run by simp
  next
    case True
    with fs d Cons.IH [of ?s "Suc i"] show ?thesis
      by (simp add: check_files_go)
  qed
qed



lemma check_files_quiet:
  "file_mtimes st f = Some v \<Longrightarrow>
   (\<forall>k t. k < length fs \<and> fs ! k = f \<and> getmtime_now p (i + k) f = Some t \<longrightarrow> t \<le> v) \<Longrightarrow>
     file_mtimes (check_files rp p i fs st) f = Some v
     \<and> (\<exists>new. trace (check_files rp p i fs st) = trace st @ new
           \<and> (\<forall>r. Committer_called f r \<notin> set new))"
proof (induction fs arbitrary: i st)
  case Nil
  then show ?case by simp
next
  case (Cons g fs)
  let ?s = "check_file rp p i g st"
  have reads: "\<forall>k t. k < length fs \<and> fs ! k = f \<and> getmtime_now p (Suc i + k) f = Some t
      \<longrightarrow> t \<le> v"
  proof (intro allI impI)
    fix k t
    assume "k < length fs \<and> fs ! k = f \<and> getmtime_now p (Suc i + k) f = Some t"
    then have "Suc k < length (g # fs) \<and> (g # fs) ! Suc k = f
        \<and> getmtime_now p (i + Suc k) f = Some t"
      by simp
    with Cons.prems(2) show "t \<le> v" by blast
  qed
  have s: "file_mtimes ?s f = Some v \<and> (\<exists>step. trace ?s = trace st @ step
      \<and> (\<forall>r. Committer_called f r \<notin> set step))"
  proof (cases "g = f")
    case True
    have "0 < length (g # fs) \<and> (g # fs) ! 0 = f" using True by simp
    with Cons.prems(2) have "\<forall>t. getmtime_now p (i + 0) f = Some t \<longrightarrow> t \<le> v"
      by blast
    then have "\<forall>t. getmtime_now p i f = Some t \<longrightarrow> t \<le> v"
      by simp
    with Cons.prems(1) True have "?s = st"
      by (simp add: check_file_unchanged)
    with Cons.prems(1) show ?thesis by simp
  next
    case False
    with check_file_trace [of rp p i g st] Cons.prems(1) show ?thesis
      by (auto simp: check_file_other)
  qed
  then obtain step where step: "trace ?s = trace st @ step"
      "\<forall>r. Committer_called f r \<notin> set step"
    and v: "file_mtimes ?s f = Some v"
    by blast
  show ?case
  proof (cases "failure ?s = None")
    case False
    then have run: "check_files rp p i (g # fs) st = ?s"
      by (rule check_files_stop)
    from step v show ?thesis
      unfolding run by auto
  next
    case True
    from Cons.IH [OF v reads] obtain new where
      new: "file_mtimes (check_files rp p (Suc i) fs ?s) f = Some v"
        "trace (check_files rp p (Suc i) fs ?s) = trace ?s @ new"
        "\<forall>r. Committer_called f r \<notin> set new"
      by blast
    have "trace (check_files rp p i (g # fs) st) = trace st @ (step @ new)"
      using True new(2) step(1) by (simp add: check_files_go)
    moreover have "\<forall>r. Committer_called f r \<notin> set (step @ new)"
      using new(3) step(2) by simp
    ultimately show ?thesis using True new(1) by (auto simp: check_files_go)
  qed
qed



subsection \<open>One poll cycle\<close>

lemma poll_cycle_go:
  "failure (note_new_files p (get_go_files rp (tree_now p)) st) = None \<Longrightarrow>
     poll_cycle rp p st =
       check_files rp p 0 (get_go_files rp (tree_now p))
         (note_new_files p (get_go_files rp (tree_now p)) st)"
  by (simp add: poll_cycle_def Let_def)

lemma poll_cycle_stop:
  "failure (note_new_files p (get_go_files rp (tree_now p)) st) \<noteq> None \<Longrightarrow>
     poll_cycle rp p st = note_new_files p (get_go_files rp (tree_now p)) st"
  by (auto simp: poll_cycle_def Let_def)


lemma cycle_events_eq:
  "trace (poll_cycle rp p st) = trace st @ new \<Longrightarrow> cycle_events rp p st = new"
  by (simp add: cycle_events_def)




text \<open>
  C9. Every poll cycle keeps the invariant of the tracked mapping: its keys only grow (no
  key is removed, and the keys added are paths that the scan lists: all of them when the
  cycle runs to its end), and the timestamp stored for a key never decreases. This holds
  also for a cycle that an exception ends before its time.
\<close>

theorem tracked_mapping_grows:
  "dom (file_mtimes st) \<subseteq> dom (file_mtimes (poll_cycle rp p st))
   \<and> dom (file_mtimes (poll_cycle rp p st))
       \<subseteq> dom (file_mtimes st) \<union> set (get_go_files rp (tree_now p))
   \<and> (failure (poll_cycle rp p st) = None \<longrightarrow>
        dom (file_mtimes (poll_cycle rp p st))
          = dom (file_mtimes st) \<union> set (get_go_files rp (tree_now p)))
   \<and> (\<forall>f v. file_mtimes st f = Some v \<longrightarrow>
          (\<exists>v'. file_mtimes (poll_cycle rp p st) f = Some v' \<and> v \<le> v'))"
proof -
  let ?cur = "get_go_files rp (tree_now p)"
  let ?noted = "note_new_files p ?cur st"
  have noted: "dom (file_mtimes st) \<subseteq> dom (file_mtimes ?noted)"
      "dom (file_mtimes ?noted) \<subseteq> dom (file_mtimes st) \<union> set ?cur"
      "failure ?noted = None \<longrightarrow> dom (file_mtimes ?noted) = dom (file_mtimes st) \<union> set ?cur"
    using note_new_files_dom [of st p ?cur] by blast+
  have mono: "\<forall>f v. file_mtimes st f = Some v \<longrightarrow>
      (\<exists>v'. file_mtimes (poll_cycle rp p st) f = Some v' \<and> v \<le> v')"
  proof (intro allI impI)
    fix f v
    assume "file_mtimes st f = Some v"
    then have kept: "file_mtimes ?noted f = Some v"
      by (rule note_new_files_keeps)
    show "\<exists>v'. file_mtimes (poll_cycle rp p st) f = Some v' \<and> v \<le> v'"
    proof (cases "failure ?noted = None")
      case True
      then have "poll_cycle rp p st = check_files rp p 0 ?cur ?noted"
        by (rule poll_cycle_go)
      with check_files_mono [OF kept, of rp p 0 ?cur] show ?thesis by simp
    next
      case False
      then have "poll_cycle rp p st = ?noted"
        by (rule poll_cycle_stop)
      with kept show ?thesis by simp
    qed
  qed
  show ?thesis
  proof (cases "failure ?noted = None")
    case True
    then have run: "poll_cycle rp p st = check_files rp p 0 ?cur ?noted"
      by (rule poll_cycle_go)
    from True noted(3) have d: "dom (file_mtimes ?noted) = dom (file_mtimes st) \<union> set ?cur"
      by simp
    then have "set ?cur \<subseteq> dom (file_mtimes ?noted)"
      by simp
    then have "dom (file_mtimes (check_files rp p 0 ?cur ?noted)) = dom (file_mtimes ?noted)"
      by (rule check_files_dom)
    with d run have "dom (file_mtimes (poll_cycle rp p st)) = dom (file_mtimes st) \<union> set ?cur"
      by simp
    with mono show ?thesis by simp
  next
    case False
    then have run: "poll_cycle rp p st = ?noted"
      by (rule poll_cycle_stop)
    from noted mono show ?thesis
      unfolding run by simp
  qed
qed

text \<open>
  C8. For a tracked file, when no modification time read for it in a poll cycle is greater
  than the value tracked from the previous cycle, the cycle does not call the Committer for
  that file, and the tracked value stays as it was.
\<close>

theorem unchanged_mtime_no_commit:
  assumes tracked: "file_mtimes st f = Some v"
    and reads: "\<forall>k t. k < length (get_go_files rp (tree_now p))
                  \<and> get_go_files rp (tree_now p) ! k = f
                  \<and> getmtime_now p k f = Some t \<longrightarrow> t \<le> v"
  shows "(\<forall>r. Committer_called f r \<notin> set (cycle_events rp p st))
         \<and> file_mtimes (poll_cycle rp p st) f = Some v"
proof -
  let ?cur = "get_go_files rp (tree_now p)"
  let ?noted = "note_new_files p ?cur st"
  from note_new_files_trace [of p ?cur st] obtain ns where
    ns: "trace ?noted = trace st @ map New_file_detected ns"
    by (elim exE conjE) (rule that)
  have noted: "file_mtimes ?noted f = Some v"
    using tracked by (rule note_new_files_keeps)
  have "\<exists>new. file_mtimes (poll_cycle rp p st) f = Some v
      \<and> trace (poll_cycle rp p st) = trace ?noted @ new
      \<and> (\<forall>r. Committer_called f r \<notin> set new)"
  proof (cases "failure ?noted = None")
    case True
    then have run: "poll_cycle rp p st = check_files rp p 0 ?cur ?noted"
      by (rule poll_cycle_go)
    have reads0: "\<forall>k t. k < length ?cur \<and> ?cur ! k = f \<and> getmtime_now p (0 + k) f = Some t
        \<longrightarrow> t \<le> v"
      using reads by simp
    from check_files_quiet [of ?noted f v ?cur p 0 rp, OF noted reads0] show ?thesis
      unfolding run by blast
  next
    case False
    then have run: "poll_cycle rp p st = ?noted"
      by (rule poll_cycle_stop)
    from noted show ?thesis
      unfolding run by (intro exI [of _ "[]"]) simp
  qed
  then obtain new where new: "file_mtimes (poll_cycle rp p st) f = Some v"
      "trace (poll_cycle rp p st) = trace ?noted @ new"
      "\<forall>r. Committer_called f r \<notin> set new"
    by blast
  have "trace (poll_cycle rp p st) = trace st @ (map New_file_detected ns @ new)"
    using ns new(2) by simp
  then have "cycle_events rp p st = map New_file_detected ns @ new"
    by (rule cycle_events_eq)
  then have "\<forall>r. Committer_called f r \<notin> set (cycle_events rp p st)"
    using new(3) by auto
  with new(1) show ?thesis by simp
qed


lemmas cycle_simps =
  poll_cycle_def note_new_file_def check_file_def cycle_events_def unseen_def
  inner_except_def

text \<open>The invariant at a tracked file whose modification time moves from 5 to 7.\<close>

theorem tracked_mapping_grows_witness:
  "file_mtimes \<lparr>file_mtimes = [''/repo/a.go'' \<mapsto> 5], trace = [], failure = None\<rparr>
     ''/repo/a.go'' = Some 5
   \<and> (\<exists>v'. file_mtimes
          (poll_cycle ''/repo''
             \<lparr>tree_now = Some (Dir [(''a.go'', File), (''b.go'', File)]),
              getmtime_now = (\<lambda>i f. Some 7), print_now = (\<lambda>ev. None),
              git_now = (\<lambda>i. calm_git)\<rparr>
             \<lparr>file_mtimes = [''/repo/a.go'' \<mapsto> 5], trace = [], failure = None\<rparr>)
          ''/repo/a.go'' = Some v'
        \<and> 5 \<le> v')
   \<and> failure
        (poll_cycle ''/repo''
           \<lparr>tree_now = Some (Dir [(''a.go'', File), (''b.go'', File)]),
            getmtime_now = (\<lambda>i f. Some 7), print_now = (\<lambda>ev. None),
            git_now = (\<lambda>i. calm_git)\<rparr>
           \<lparr>file_mtimes = [''/repo/a.go'' \<mapsto> 5], trace = [], failure = None\<rparr>) = None
   \<and> dom (file_mtimes
        (poll_cycle ''/repo''
           \<lparr>tree_now = Some (Dir [(''a.go'', File), (''b.go'', File)]),
            getmtime_now = (\<lambda>i f. Some 7), print_now = (\<lambda>ev. None),
            git_now = (\<lambda>i. calm_git)\<rparr>
           \<lparr>file_mtimes = [''/repo/a.go'' \<mapsto> 5], trace = [], failure = None\<rparr>))
       = {''/repo/a.go'', ''/repo/b.go''}"
proof -
  let ?p = "\<lparr>tree_now = Some (Dir [(''a.go'', File), (''b.go'', File)]),
      getmtime_now = (\<lambda>i f. Some (7::real)), print_now = (\<lambda>ev. None),
      git_now = (\<lambda>i. calm_git)\<rparr>"
  let ?st = "\<lparr>file_mtimes = [''/repo/a.go'' \<mapsto> 5], trace = [], failure = None\<rparr>"
  have h: "file_mtimes ?st ''/repo/a.go'' = Some 5"
    by simp
  have g: "get_go_files ''/repo'' (Some (Dir [(''a.go'', File), (''b.go'', File)]))
      = [''/repo/a.go'', ''/repo/b.go'', ''/repo/a.go'', ''/repo/b.go'']"
    by (simp add: scan_simps)
  have c: "\<And>f. returned (commit_changes f ''/repo'' calm_git) = Inr False"
    by (simp add: commit_changes_def try_body_def calm_git_def)
  have d: "failure (poll_cycle ''/repo'' ?p ?st) = None"
    by (simp add: cycle_simps g c)
  from tracked_mapping_grows [of ?st "''/repo''" ?p] h d g
  have "(\<exists>v'. file_mtimes (poll_cycle ''/repo'' ?p ?st) ''/repo/a.go'' = Some v' \<and> 5 \<le> v')
      \<and> dom (file_mtimes (poll_cycle ''/repo'' ?p ?st)) = {''/repo/a.go'', ''/repo/b.go''}"
    by auto
  with h d show ?thesis by simp
qed

text \<open>A tracked file, listed twice by the scan, read twice at its tracked time.\<close>

theorem unchanged_mtime_no_commit_witness:
  "file_mtimes \<lparr>file_mtimes = [''/repo/a.go'' \<mapsto> 5], trace = [], failure = None\<rparr>
     ''/repo/a.go'' = Some 5
   \<and> get_go_files ''/repo'' (Some (Dir [(''a.go'', File)])) = [''/repo/a.go'', ''/repo/a.go'']
   \<and> (\<forall>r. Committer_called ''/repo/a.go'' r \<notin> set (cycle_events ''/repo''
          \<lparr>tree_now = Some (Dir [(''a.go'', File)]), getmtime_now = (\<lambda>i f. Some 5),
           print_now = (\<lambda>ev. None), git_now = (\<lambda>i. calm_git)\<rparr>
          \<lparr>file_mtimes = [''/repo/a.go'' \<mapsto> 5], trace = [], failure = None\<rparr>))"
proof -
  have h: "file_mtimes \<lparr>file_mtimes = [''/repo/a.go'' \<mapsto> 5], trace = [], failure = None\<rparr>
      ''/repo/a.go'' = Some 5"
    by simp
  have s: "get_go_files ''/repo'' (Some (Dir [(''a.go'', File)])) = [''/repo/a.go'', ''/repo/a.go'']"
    by (simp add: scan_simps)
  from unchanged_mtime_no_commit
    [of "\<lparr>file_mtimes = [''/repo/a.go'' \<mapsto> 5], trace = [], failure = None\<rparr>"
        "''/repo/a.go''" 5 "''/repo''"
        "\<lparr>tree_now = Some (Dir [(''a.go'', File)]), getmtime_now = (\<lambda>i f. Some 5),
          print_now = (\<lambda>ev. None), git_now = (\<lambda>i. calm_git)\<rparr>"] h s
  show ?thesis by simp
qed



section \<open>Properties of \<^verbatim>\<open>main\<close>\<close>














end
